theory Spec2Isabelle
  imports Complex_Main
begin

section \<open>The link-based binary search tree of linkedbst.py\<close>

subsection \<open>Nodes, the collection state and errors\<close>

text \<open>
  Modelled from the spec: the node class \<^verbatim>\<open>BSTNode\<close> is imported by linkedbst.py and is
  not part of the source file. The spec describes it as one stored value with an optional
  left and an optional right child and no parent link. A link that is \<^verbatim>\<open>None\<close> in
  Python is the constructor \<open>Null\<close>; \<^verbatim>\<open>BSTNode(item)\<close> is \<open>BSTNode item Null Null\<close>.
  Nodes are exclusively owned, so the mutation of a child link is the replacement of a subtree.
\<close>

datatype 'a node = Null | BSTNode (data: 'a) (left: "'a node") (right: "'a node")

text \<open>
  Modelled from the spec: the base class \<^verbatim>\<open>AbstractCollection\<close> is imported as well. It
  keeps the item count \<^verbatim>\<open>_size\<close>, answers \<^verbatim>\<open>isEmpty()\<close> from that count, and its
  constructor starts from count zero and adds the items of the source collection one by one with
  \<^verbatim>\<open>add\<close>. The tree object is the pair of \<^verbatim>\<open>_root\<close> and \<^verbatim>\<open>_size\<close>.
\<close>

record 'a linkedbst =
  bst_root :: "'a node"
  bst_size :: nat

definition isEmpty :: "'a linkedbst \<Rightarrow> bool" where
  "isEmpty self = (bst_size self = 0)"

definition init_empty :: "'a linkedbst" where
  "init_empty = \<lparr>bst_root = Null, bst_size = 0\<rparr>"

text \<open>
  \<open>KeyError\<close> is raised by \<^verbatim>\<open>remove\<close>; \<open>AttributeError\<close> is what Python raises when a
  field of \<^verbatim>\<open>None\<close> is read.
\<close>

datatype error = KeyError | AttributeError

text \<open>The number of nodes that hang from a link, and the values stored there.\<close>

fun num_nodes :: "'a node \<Rightarrow> nat" where
  "num_nodes Null = 0"
| "num_nodes (BSTNode d l r) = Suc (num_nodes l + num_nodes r)"

fun inorder_list :: "'a node \<Rightarrow> 'a list" where
  "inorder_list Null = []"
| "inorder_list (BSTNode d l r) = inorder_list l @ d # inorder_list r"

fun preorder_list :: "'a node \<Rightarrow> 'a list" where
  "preorder_list Null = []"
| "preorder_list (BSTNode d l r) = d # preorder_list l @ preorder_list r"

text \<open>
  The data model of the spec: the count equals the number of nodes, and the ordering
  invariant puts strictly smaller values to the left and greater or equal values to the right.
\<close>

definition size_ok :: "'a linkedbst \<Rightarrow> bool" where
  "size_ok self = (bst_size self = num_nodes (bst_root self))"

fun bst_inv :: "'a::linorder node \<Rightarrow> bool" where
  "bst_inv Null = True"
| "bst_inv (BSTNode d l r) =
     (list_all (\<lambda>x. x < d) (inorder_list l) \<and> list_all (\<lambda>x. d \<le> x) (inorder_list r)
      \<and> bst_inv l \<and> bst_inv r)"

definition tree_ok :: "'a::linorder linkedbst \<Rightarrow> bool" where
  "tree_ok self = (size_ok self \<and> bst_inv (bst_root self))"

subsection \<open>Traversals\<close>

text \<open>
  \<^verbatim>\<open>preorder\<close> and \<^verbatim>\<open>inorder\<close>: the inner \<^verbatim>\<open>recurse\<close> appends to the list
  \<^verbatim>\<open>lyst\<close> of the enclosing call, which is threaded through here.
\<close>

fun preorder_recurse :: "'a node \<Rightarrow> 'a list \<Rightarrow> 'a list" where
  "preorder_recurse Null lyst = lyst"
| "preorder_recurse (BSTNode d l r) lyst =
     preorder_recurse r (preorder_recurse l (lyst @ [d]))"

definition preorder :: "'a linkedbst \<Rightarrow> 'a list" where
  "preorder self = preorder_recurse (bst_root self) []"

fun inorder_recurse :: "'a node \<Rightarrow> 'a list \<Rightarrow> 'a list" where
  "inorder_recurse Null lyst = lyst"
| "inorder_recurse (BSTNode d l r) lyst =
     inorder_recurse r (inorder_recurse l lyst @ [d])"

definition inorder :: "'a linkedbst \<Rightarrow> 'a list" where
  "inorder self = inorder_recurse (bst_root self) []"

subsection \<open>Search\<close>

fun find_recurse :: "'a::linorder \<Rightarrow> 'a node \<Rightarrow> 'a option" where
  "find_recurse item Null = None"
| "find_recurse item (BSTNode d l r) =
     (if item = d then Some d
      else if item < d then find_recurse item l
      else find_recurse item r)"

definition find :: "'a::linorder \<Rightarrow> 'a linkedbst \<Rightarrow> 'a option" where
  "find item self = find_recurse item (bst_root self)"

definition contains :: "'a::linorder \<Rightarrow> 'a linkedbst \<Rightarrow> bool" where
  "contains item self = (find item self \<noteq> None)"

subsection \<open>Insertion\<close>

text \<open>
  The inner \<^verbatim>\<open>recurse\<close> of \<^verbatim>\<open>add\<close> is only entered on a node: it tests a child link
  for \<^verbatim>\<open>None\<close> before it follows it. The one place where it can meet \<^verbatim>\<open>None\<close> is the
  call on the root, when the count is not zero and there is no root; that read of
  \<^verbatim>\<open>node.data\<close> is the \<open>AttributeError\<close> branch of \<open>add\<close>, so the clause of
  \<open>add_recurse\<close> for \<open>Null\<close> is never evaluated.
\<close>

fun add_recurse :: "'a::linorder \<Rightarrow> 'a node \<Rightarrow> 'a node" where
  "add_recurse item Null = Null"
| "add_recurse item (BSTNode d l r) =
     (if item < d then
        (if l = Null then BSTNode d (BSTNode item Null Null) r
         else BSTNode d (add_recurse item l) r)
      else if r = Null then BSTNode d l (BSTNode item Null Null)
      else BSTNode d l (add_recurse item r))"

definition add :: "'a::linorder \<Rightarrow> 'a linkedbst \<Rightarrow> error + 'a linkedbst" where
  "add item self =
     (if isEmpty self then
        Inr (self\<lparr>bst_root := BSTNode item Null Null, bst_size := bst_size self + 1\<rparr>)
      else if bst_root self = Null then Inl AttributeError
      else Inr (self\<lparr>bst_root := add_recurse item (bst_root self),
                     bst_size := bst_size self + 1\<rparr>))"

text \<open>The bulk constructor: the items are added in the given order, the first error stops it.\<close>

fun add_all :: "'a::linorder list \<Rightarrow> 'a linkedbst \<Rightarrow> error + 'a linkedbst" where
  "add_all [] self = Inr self"
| "add_all (item # items) self =
     (case add item self of Inl e \<Rightarrow> Inl e | Inr self' \<Rightarrow> add_all items self')"

definition init :: "'a::linorder list \<Rightarrow> error + 'a linkedbst" where
  "init sourceCollection = add_all sourceCollection init_empty"

subsection \<open>Removal\<close>

text \<open>
  The loop of \<^verbatim>\<open>lift_max_in_left_subtree_to_top\<close> follows right links from
  \<^verbatim>\<open>top.left\<close> to the last node, whose value is lifted and whose place is taken by its left
  child. \<open>lift_loop d l r\<close> runs it from the node with fields \<open>d\<close>, \<open>l\<close>, \<open>r\<close> and returns
  the lifted value with the subtree that is left.
\<close>

fun lift_loop :: "'a \<Rightarrow> 'a node \<Rightarrow> 'a node \<Rightarrow> 'a \<times> 'a node" where
  "lift_loop d l Null = (d, l)"
| "lift_loop d l (BSTNode rd rl rr) =
     (case lift_loop rd rl rr of (m, r') \<Rightarrow> (m, BSTNode d l r'))"

fun lift_max_in_left_subtree_to_top :: "'a node \<Rightarrow> error + 'a node" where
  "lift_max_in_left_subtree_to_top Null = Inl AttributeError"
| "lift_max_in_left_subtree_to_top (BSTNode d Null r) = Inl AttributeError"
| "lift_max_in_left_subtree_to_top (BSTNode d (BSTNode ld ll lr) r) =
     (case lift_loop ld ll lr of (m, l') \<Rightarrow> Inr (BSTNode m l' r))"

text \<open>
  The descent of \<^verbatim>\<open>remove\<close> from the root, with the parent and the direction it tracks: the
  result is \<^verbatim>\<open>item_removed\<close> and the subtree that hangs from the parent's link afterwards.
  Where the item is located, a node with two children gets the maximum of its left subtree,
  and a node with at most one child is replaced by that child.
\<close>

fun remove_descend :: "'a::linorder \<Rightarrow> 'a node \<Rightarrow> error + ('a option \<times> 'a node)" where
  "remove_descend item Null = Inr (None, Null)"
| "remove_descend item (BSTNode d l r) =
     (if d = item then
        (if l \<noteq> Null \<and> r \<noteq> Null then
           (case lift_max_in_left_subtree_to_top (BSTNode d l r) of
              Inl e \<Rightarrow> Inl e
            | Inr top_node \<Rightarrow> Inr (Some d, top_node))
         else if l = Null then Inr (Some d, r)
         else Inr (Some d, l))
      else if d > item then
        (case remove_descend item l of
           Inl e \<Rightarrow> Inl e
         | Inr (item_removed, l') \<Rightarrow> Inr (item_removed, BSTNode d l' r))
      else
        (case remove_descend item r of
           Inl e \<Rightarrow> Inl e
         | Inr (item_removed, r') \<Rightarrow> Inr (item_removed, BSTNode d l r')))"

text \<open>
  \<^verbatim>\<open>remove\<close> returns the outcome of the call (an error, or the returned value, which is
  \<^verbatim>\<open>None\<close> on two of its paths) together with the tree object after the call.
\<close>

definition remove :: "'a::linorder \<Rightarrow> 'a linkedbst \<Rightarrow> (error + 'a option) \<times> 'a linkedbst" where
  "remove item self =
     (if \<not> contains item self then (Inl KeyError, self)
      else if isEmpty self then (Inr None, self)
      else
        (case remove_descend item (bst_root self) of
           Inl e \<Rightarrow> (Inl e, self)
         | Inr (None, pre_root_left) \<Rightarrow> (Inr None, self)
         | Inr (Some item_removed, pre_root_left) \<Rightarrow>
             (let self1 = self\<lparr>bst_size := bst_size self - 1\<rparr> in
              (Inr (Some item_removed),
               if isEmpty self1 then self1\<lparr>bst_root := Null\<rparr>
               else self1\<lparr>bst_root := pre_root_left\<rparr>))))"

subsection \<open>Default iteration\<close>

text \<open>
  Modelled from the spec: the class \<^verbatim>\<open>LinkedStack\<close> is imported too; it is the
  last-in-first-out auxiliary stack of the spec, here a list whose head is the top.
  \<open>push_child\<close> is the guarded push \<^verbatim>\<open>if node.right: stack.push(node.right)\<close>.
\<close>

definition push_child :: "'a node \<Rightarrow> 'a node list \<Rightarrow> 'a node list" where
  "push_child child stack = (if child \<noteq> Null then child # stack else stack)"

fun stack_weight :: "'a node list \<Rightarrow> nat" where
  "stack_weight [] = 0"
| "stack_weight (n # stack) = Suc (2 * num_nodes n) + stack_weight stack"

text \<open>
  The loop of \<^verbatim>\<open>__iter__\<close>: each round pops a node, yields its value and pushes the right
  child and then the left child. The values are collected in the order they are yielded.
\<close>

function iter_loop :: "'a node list \<Rightarrow> error + 'a list" where
  "iter_loop [] = Inr []"
| "iter_loop (Null # stack) = Inl AttributeError"
| "iter_loop (BSTNode d l r # stack) =
     (case iter_loop (push_child l (push_child r stack)) of
        Inl e \<Rightarrow> Inl e
      | Inr items \<Rightarrow> Inr (d # items))"
  by pat_completeness auto
termination
  by (relation "measure stack_weight") (auto simp: push_child_def)

definition iter :: "'a linkedbst \<Rightarrow> error + 'a list" where
  "iter self = (if \<not> isEmpty self then iter_loop [bst_root self] else Inr [])"

subsection \<open>Height and level order\<close>

fun height1 :: "'a node \<Rightarrow> nat" where
  "height1 Null = 0"
| "height1 (BSTNode d l r) =
     (if l = Null \<and> r = Null then 0 else 1 + max (height1 l) (height1 r))"

definition height :: "'a linkedbst \<Rightarrow> nat" where
  "height self = height1 (bst_root self)"

text \<open>
  \<^verbatim>\<open>print_level\<close> appends to the one list of \<^verbatim>\<open>levelorder\<close>; the level is a positive
  number on every call, since the loop passes \<^verbatim>\<open>i + 1\<close> and the recursion only decrements
  a level above one.
\<close>

fun print_level :: "'a node \<Rightarrow> nat \<Rightarrow> 'a list \<Rightarrow> 'a list" where
  "print_level Null level lst = lst"
| "print_level (BSTNode d l r) level lst =
     (if level = 1 then lst @ [d]
      else if level > 1 then print_level r (level - 1) (print_level l (level - 1) lst)
      else lst)"

definition levelorder :: "'a linkedbst \<Rightarrow> 'a list" where
  "levelorder self =
     fold (\<lambda>i lst. print_level (bst_root self) (i + 1) lst) [0..<height self] []"

subsection \<open>Balance test\<close>

text \<open>
  \<^verbatim>\<open>log\<close> is \<^verbatim>\<open>math.log\<close> with one argument, the natural logarithm; the floating-point
  computation is read over the real numbers.
\<close>

definition helper :: "'a linkedbst \<Rightarrow> nat" where
  "helper self = fold (\<lambda>_ cnt. cnt + 1) (inorder self) 0"

definition is_balanced :: "'a linkedbst \<Rightarrow> bool" where
  "is_balanced self =
     (let number = helper self in
      if real (height self) < 2 * ln (2 * (real number + 1)) - 1 then True else False)"

text \<open>The tree that the constructor builds from the sorted sequence 1 to 7: a chain to the right.\<close>

definition chain7 :: "int linkedbst" where
  "chain7 = \<lparr>bst_root = BSTNode 1 Null (BSTNode 2 Null (BSTNode 3 Null (BSTNode 4 Null
              (BSTNode 5 Null (BSTNode 6 Null (BSTNode 7 Null Null)))))), bst_size = 7\<rparr>"

subsection \<open>Range query\<close>

definition range_find :: "'a::linorder \<Rightarrow> 'a \<Rightarrow> 'a linkedbst \<Rightarrow> 'a list option" where
  "range_find low high self =
     (let ans = fold (\<lambda>number ans. if low \<le> number \<and> number \<le> high then ans @ [number] else ans)
                  (inorder self) []
      in if length ans > 0 then Some ans else None)"

subsection \<open>Rebalancing\<close>

function rb1 :: "'a list \<Rightarrow> 'a node" where
  "rb1 elems =
     (if length elems = 0 then Null
      else BSTNode (elems ! (length elems div 2))
             (rb1 (take (length elems div 2) elems))
             (rb1 (drop (length elems div 2 + 1) elems)))"
  by pat_completeness auto
termination
  by (relation "measure length") auto

declare rb1.simps [simp del]

definition rebalance :: "'a linkedbst \<Rightarrow> 'a linkedbst" where
  "rebalance self = self\<lparr>bst_root := rb1 (inorder self)\<rparr>"

subsection \<open>Successor\<close>

text \<open>
  The scan of \<^verbatim>\<open>successor\<close> over a tree of integers, with the running minimum
  \<^verbatim>\<open>min_num\<close> that starts at \<^verbatim>\<open>10**32\<close>.
\<close>

function successor_loop :: "int \<Rightarrow> int node list \<Rightarrow> int \<Rightarrow> error + int" where
  "successor_loop item [] min_num = Inr min_num"
| "successor_loop item (Null # stack) min_num = Inl AttributeError"
| "successor_loop item (BSTNode d l r # stack) min_num =
     successor_loop item (push_child l (push_child r stack))
       (if item < d \<and> d \<le> min_num then d else min_num)"
  by pat_completeness auto
termination
  by (relation "measure (\<lambda>(item, stack, min_num). stack_weight stack)")
    (auto simp: push_child_def)

definition successor :: "int \<Rightarrow> int linkedbst \<Rightarrow> error + int option" where
  "successor item self =
     (case (if \<not> isEmpty self then successor_loop item [bst_root self] (10 ^ 32)
            else Inr (10 ^ 32)) of
        Inl e \<Rightarrow> Inl e
      | Inr min_num \<Rightarrow> Inr (if min_num \<noteq> 10 ^ 32 then Some min_num else None))"

section \<open>Properties\<close>

subsection \<open>Traversals as lists\<close>

lemma inorder_recurse_append: "inorder_recurse n lyst = lyst @ inorder_list n"
  by (induction n arbitrary: lyst) simp_all

lemma inorder_eq: "inorder self = inorder_list (bst_root self)"
  by (simp add: inorder_def inorder_recurse_append)

lemma preorder_recurse_append: "preorder_recurse n lyst = lyst @ preorder_list n"
  by (induction n arbitrary: lyst) simp_all

lemma preorder_eq: "preorder self = preorder_list (bst_root self)"
  by (simp add: preorder_def preorder_recurse_append)

lemma length_inorder_list: "length (inorder_list n) = num_nodes n"
  by (induction n) simp_all

subsection \<open>Removal of an absent item\<close>

lemma find_recurse_Some: "find_recurse item n = Some v \<Longrightarrow> v = item \<and> item \<in> set (inorder_list n)"
  by (induction n) (auto split: if_splits)

lemma contains_stored: "contains item self \<Longrightarrow> item \<in> set (inorder self)"
  using find_recurse_Some [of item "bst_root self"]
  by (auto simp: contains_def find_def inorder_eq)

text \<open>
  Claim C4. When the item is not among the stored values, \<^verbatim>\<open>remove\<close> raises the
  key error and the tree object after the call is the one before it, so the count and the
  inorder sequence are the same.
\<close>

theorem remove_absent_unchanged:
  assumes "item \<notin> set (inorder self)"
  shows "fst (remove item self) = Inl KeyError
    \<and> snd (remove item self) = self
    \<and> bst_size (snd (remove item self)) = bst_size self
    \<and> inorder (snd (remove item self)) = inorder self"
proof -
  have "\<not> contains item self"
    using assms contains_stored by blast
  then show ?thesis
    by (simp add: remove_def)
qed

theorem remove_absent_unchanged_witness:
  "(7::int) \<notin> set (inorder \<lparr>bst_root = BSTNode 5 (BSTNode 4 Null Null) (BSTNode 6 Null Null),
                                bst_size = 3\<rparr>)
   \<and> remove (7::int) \<lparr>bst_root = BSTNode 5 (BSTNode 4 Null Null) (BSTNode 6 Null Null),
                       bst_size = 3\<rparr>
     = (Inl KeyError, \<lparr>bst_root = BSTNode 5 (BSTNode 4 Null Null) (BSTNode 6 Null Null),
                        bst_size = 3\<rparr>)"
  using remove_absent_unchanged
    [of "7::int" "\<lparr>bst_root = BSTNode 5 (BSTNode 4 Null Null) (BSTNode 6 Null Null), bst_size = 3\<rparr>"]
  by (simp add: inorder_eq prod_eq_iff)

subsection \<open>The value returned by a removal\<close>

lemma lift_max_defined:
  "l \<noteq> Null \<Longrightarrow> \<exists>n. lift_max_in_left_subtree_to_top (BSTNode d l r) = Inr n"
  by (cases l) (simp_all split: prod.splits)

lemma remove_descend_here:
  "\<exists>n'. remove_descend item (BSTNode item l r) = Inr (Some item, n')"
proof (cases "l \<noteq> Null \<and> r \<noteq> Null")
  case True
  then have "l \<noteq> Null"
    by simp
  from lift_max_defined [OF this, of item r]
  obtain n where "lift_max_in_left_subtree_to_top (BSTNode item l r) = Inr n" ..
  with True show ?thesis by simp
next
  case False
  then show ?thesis by auto
qed

lemma remove_descend_located:
  "find_recurse item n \<noteq> None \<Longrightarrow> \<exists>n'. remove_descend item n = Inr (Some item, n')"
proof (induction n)
  case Null
  then show ?case by simp
next
  case (BSTNode d l r)
  show ?case
  proof (cases "d = item")
    case True
    then show ?thesis
      using remove_descend_here [of item l r] by simp
  next
    case False
    show ?thesis
    proof (cases "item < d")
      case True
      with False BSTNode.prems have "find_recurse item l \<noteq> None" by simp
      then obtain l' where "remove_descend item l = Inr (Some item, l')"
        using BSTNode.IH(1) by blast
      with False True show ?thesis by simp
    next
      case ge: False
      with False BSTNode.prems have "find_recurse item r \<noteq> None" by simp
      then obtain r' where "remove_descend item r = Inr (Some item, r')"
        using BSTNode.IH(2) by blast
      with False ge show ?thesis by simp
    qed
  qed
qed

text \<open>
  Claim C9. On a tree object whose count is the number of its nodes, a call of
  \<^verbatim>\<open>remove\<close> that passes the membership test returns the item itself, so every normal
  return carries the item: the path through the empty-tree test and the path where the descent
  does not locate the item, both of which return \<^verbatim>\<open>None\<close>, are not taken.
\<close>

theorem remove_returns_item:
  assumes "size_ok self"
  shows "(contains item self \<longrightarrow> fst (remove item self) = Inr (Some item))
    \<and> (\<forall>v. fst (remove item self) = Inr v \<longrightarrow> v = Some item)"
proof -
  have located: "fst (remove item self) = Inr (Some item)" if c: "contains item self"
  proof -
    from c have f: "find_recurse item (bst_root self) \<noteq> None"
      by (simp add: contains_def find_def)
    then have "bst_root self \<noteq> Null"
      by auto
    then have "num_nodes (bst_root self) \<noteq> 0"
      by (cases "bst_root self") simp_all
    with assms have ne: "\<not> isEmpty self"
      by (simp add: size_ok_def isEmpty_def)
    from f obtain n' where "remove_descend item (bst_root self) = Inr (Some item, n')"
      using remove_descend_located by blast
    with c ne show ?thesis
      by (simp add: remove_def Let_def)
  qed
  moreover have "fst (remove item self) = Inl KeyError" if "\<not> contains item self"
    using that by (simp add: remove_def)
  ultimately show ?thesis
    by (cases "contains item self") auto
qed

theorem remove_returns_item_witness:
  "size_ok \<lparr>bst_root = BSTNode (5::int) (BSTNode 4 Null Null) (BSTNode 6 Null Null), bst_size = 3\<rparr>
   \<and> contains 5 \<lparr>bst_root = BSTNode (5::int) (BSTNode 4 Null Null) (BSTNode 6 Null Null),
                  bst_size = 3\<rparr>
   \<and> fst (remove 5 \<lparr>bst_root = BSTNode (5::int) (BSTNode 4 Null Null) (BSTNode 6 Null Null),
                     bst_size = 3\<rparr>) = Inr (Some 5)"
proof -
  let ?t = "\<lparr>bst_root = BSTNode (5::int) (BSTNode 4 Null Null) (BSTNode 6 Null Null), bst_size = 3\<rparr>"
  have s: "size_ok ?t"
    by (simp add: size_ok_def)
  have c: "contains 5 ?t"
    by (simp add: contains_def find_def)
  from remove_returns_item [OF s, of 5] c have "fst (remove 5 ?t) = Inr (Some 5)"
    by blast
  with s c show ?thesis
    by blast
qed

subsection \<open>Insertion keeps the ordering invariant\<close>

lemma set_add_recurse:
  "n \<noteq> Null \<Longrightarrow> set (inorder_list (add_recurse item n)) = insert item (set (inorder_list n))"
  by (induction n) auto

lemma num_nodes_add_recurse:
  "n \<noteq> Null \<Longrightarrow> num_nodes (add_recurse item n) = Suc (num_nodes n)"
  by (induction n) auto

lemma add_recurse_not_Null: "n \<noteq> Null \<Longrightarrow> add_recurse item n \<noteq> Null"
  by (cases n) auto

lemma bst_inv_add_recurse:
  "bst_inv n \<Longrightarrow> n \<noteq> Null \<Longrightarrow> bst_inv (add_recurse item n)"
proof (induction n)
  case Null
  then show ?case by simp
next
  case (BSTNode d l r)
  show ?case
  proof (cases "item < d")
    case True
    show ?thesis
    proof (cases "l = Null")
      case True
      with \<open>item < d\<close> BSTNode.prems show ?thesis by simp
    next
      case False
      with \<open>item < d\<close> BSTNode show ?thesis
        by (simp add: list_all_iff set_add_recurse)
    qed
  next
    case ge: False
    show ?thesis
    proof (cases "r = Null")
      case True
      with ge BSTNode.prems show ?thesis by simp
    next
      case False
      with ge BSTNode show ?thesis
        by (simp add: list_all_iff set_add_recurse)
    qed
  qed
qed

lemma bst_inv_sorted: "bst_inv n \<Longrightarrow> sorted (inorder_list n)"
proof (induction n)
  case Null
  then show ?case by simp
next
  case (BSTNode d l r)
  then have lt: "\<forall>x \<in> set (inorder_list l). x < d"
    and ge: "\<forall>y \<in> set (inorder_list r). d \<le> y"
    by (simp_all add: list_all_iff)
  have "x \<le> y" if "x \<in> set (inorder_list l)" "y \<in> set (inorder_list r)" for x y
  proof -
    from that lt have "x < d" by simp
    moreover from that ge have "d \<le> y" by simp
    ultimately show ?thesis by simp
  qed
  moreover from lt have "\<forall>x \<in> set (inorder_list l). x \<le> d"
    by (simp add: less_imp_le)
  ultimately show ?case
    using BSTNode ge by (simp add: sorted_append)
qed

lemma add_ok:
  assumes "tree_ok self"
  shows "\<exists>self'. add item self = Inr self' \<and> tree_ok self'
    \<and> bst_size self' = Suc (bst_size self)"
proof (cases "isEmpty self")
  case True
  with assms show ?thesis
    by (simp add: add_def tree_ok_def size_ok_def isEmpty_def)
next
  case False
  with assms have ne: "bst_root self \<noteq> Null"
    by (auto simp: tree_ok_def size_ok_def isEmpty_def)
  with False assms show ?thesis
    by (simp add: add_def tree_ok_def size_ok_def num_nodes_add_recurse bst_inv_add_recurse)
qed

lemma add_all_ok:
  "tree_ok self \<Longrightarrow>
   \<exists>self'. add_all items self = Inr self' \<and> tree_ok self'
     \<and> bst_size self' = bst_size self + length items"
proof (induction items arbitrary: self)
  case Nil
  then show ?case by simp
next
  case (Cons item items)
  from add_ok [OF Cons.prems, of item]
  obtain s1 where s1: "add item self = Inr s1" "tree_ok s1" "bst_size s1 = Suc (bst_size self)"
    by auto
  from Cons.IH [OF s1(2)]
  obtain s2 where "add_all items s1 = Inr s2" "tree_ok s2"
    "bst_size s2 = bst_size s1 + length items"
    by auto
  with s1 show ?case by simp
qed

text \<open>
  Claim C6. The constructor adds the items of any finite sequence, duplicates included, to the
  empty tree without an error, and the tree it builds has a non-decreasing inorder sequence and
  satisfies the ordering invariant (left strictly smaller, right greater or equal); the count
  is the length of the sequence. Every prefix of a sequence is a sequence, so this holds after
  every insertion.
\<close>

theorem add_sequence_sorted:
  "\<exists>self. init items = Inr self \<and> sorted (inorder self) \<and> bst_inv (bst_root self)
     \<and> bst_size self = length items"
proof -
  have "tree_ok (init_empty :: 'a linkedbst)"
    by (simp add: tree_ok_def size_ok_def init_empty_def)
  from add_all_ok [OF this, of items]
  obtain self where "add_all items init_empty = Inr self" "tree_ok self"
    "bst_size self = bst_size (init_empty :: 'a linkedbst) + length items"
    by auto
  then show ?thesis
    by (auto simp: init_def tree_ok_def inorder_eq bst_inv_sorted init_empty_def)
qed

theorem add_sequence_sorted_witness:
  "init [5::int, 4, 6, 5]
     = Inr \<lparr>bst_root = BSTNode 5 (BSTNode 4 Null Null) (BSTNode 6 (BSTNode 5 Null Null) Null),
             bst_size = 4\<rparr>
   \<and> sorted (inorder \<lparr>bst_root = BSTNode (5::int) (BSTNode 4 Null Null)
                                     (BSTNode 6 (BSTNode 5 Null Null) Null),
                         bst_size = 4\<rparr>)"
proof -
  let ?t = "\<lparr>bst_root = BSTNode (5::int) (BSTNode 4 Null Null) (BSTNode 6 (BSTNode 5 Null Null) Null),
             bst_size = 4\<rparr>"
  have i: "init [5::int, 4, 6, 5] = Inr ?t"
    by (simp add: init_def init_empty_def add_def isEmpty_def)
  from add_sequence_sorted [of "[5::int, 4, 6, 5]"]
  obtain self where "init [5::int, 4, 6, 5] = Inr self" "sorted (inorder self)"
    by blast
  with i show ?thesis
    by simp
qed

subsection \<open>Default iteration is the preorder traversal\<close>

lemma iter_loop_preorder:
  "Null \<notin> set stack \<Longrightarrow> iter_loop stack = Inr (concat (map preorder_list stack))"
proof (induction stack rule: iter_loop.induct)
  case 1
  then show ?case by simp
next
  case (2 stack)
  then show ?case by simp
next
  case (3 d l r stack)
  from "3.prems" have "Null \<notin> set (push_child l (push_child r stack))"
    by (simp add: push_child_def)
  from "3.IH" [OF this] show ?case
    by (cases l; cases r) (simp_all add: push_child_def)
qed

text \<open>
  Claim C7. On a tree object whose count is the number of its nodes, the default iteration
  with its explicit stack ends without an error and yields exactly the sequence of the
  recursive \<^verbatim>\<open>preorder\<close> traversal.
\<close>

theorem iter_is_preorder:
  assumes "size_ok self"
  shows "iter self = Inr (preorder self)"
proof (cases "bst_root self = Null")
  case True
  with assms show ?thesis
    by (simp add: iter_def isEmpty_def size_ok_def preorder_eq)
next
  case False
  then have "num_nodes (bst_root self) \<noteq> 0"
    by (cases "bst_root self") simp_all
  with assms have "\<not> isEmpty self"
    by (simp add: isEmpty_def size_ok_def)
  moreover from False have "iter_loop [bst_root self] = Inr (preorder_list (bst_root self))"
    using iter_loop_preorder [of "[bst_root self]"] by simp
  ultimately show ?thesis
    by (simp add: iter_def preorder_eq)
qed

theorem iter_is_preorder_witness:
  "size_ok \<lparr>bst_root = BSTNode (5::int) (BSTNode 4 Null Null) (BSTNode 6 Null Null), bst_size = 3\<rparr>
   \<and> iter \<lparr>bst_root = BSTNode (5::int) (BSTNode 4 Null Null) (BSTNode 6 Null Null),
             bst_size = 3\<rparr> = Inr [5, 4, 6]"
proof -
  let ?t = "\<lparr>bst_root = BSTNode (5::int) (BSTNode 4 Null Null) (BSTNode 6 Null Null), bst_size = 3\<rparr>"
  have s: "size_ok ?t"
    by (simp add: size_ok_def)
  have "preorder ?t = [5, 4, 6]"
    by (simp add: preorder_def)
  with iter_is_preorder [OF s] s show ?thesis
    by simp
qed

subsection \<open>Range query\<close>

lemma fold_collect:
  "fold (\<lambda>x ans. if P x then ans @ [x] else ans) xs acc = acc @ filter P xs"
  by (induction xs arbitrary: acc) simp_all

lemma range_find_filter:
  "range_find low high self =
     (if filter (\<lambda>v. low \<le> v \<and> v \<le> high) (inorder self) = [] then None
      else Some (filter (\<lambda>v. low \<le> v \<and> v \<le> high) (inorder self)))"
  by (simp add: range_find_def fold_collect)

text \<open>
  Claim C8. \<^verbatim>\<open>range_find\<close> returns \<^verbatim>\<open>None\<close> exactly when no stored value lies between
  the bounds. Otherwise it returns the stored values between the bounds, each as often as it
  is stored, in the order of the inorder traversal; that list is never empty, and it is sorted
  when the tree satisfies the ordering invariant of the data model.
\<close>

theorem range_find_correct:
  "(range_find low high self = None
      \<longleftrightarrow> \<not> (\<exists>v \<in> set (inorder self). low \<le> v \<and> v \<le> high))
   \<and> (\<forall>ans. range_find low high self = Some ans \<longrightarrow>
         ans = filter (\<lambda>v. low \<le> v \<and> v \<le> high) (inorder self)
         \<and> ans \<noteq> []
         \<and> set ans = {v \<in> set (inorder self). low \<le> v \<and> v \<le> high}
         \<and> (bst_inv (bst_root self) \<longrightarrow> sorted ans))"
proof -
  let ?ys = "filter (\<lambda>v. low \<le> v \<and> v \<le> high) (inorder self)"
  have none: "(?ys = []) = (\<not> (\<exists>v \<in> set (inorder self). low \<le> v \<and> v \<le> high))"
    by (simp add: filter_empty_conv)
  have srt: "sorted ?ys" if "bst_inv (bst_root self)"
    using that by (simp add: inorder_eq bst_inv_sorted sorted_wrt_filter)
  have st: "set ?ys = {v \<in> set (inorder self). low \<le> v \<and> v \<le> high}"
    by auto
  show ?thesis
    unfolding range_find_filter using none srt st by (auto split: if_splits)
qed

theorem range_find_correct_witness:
  "range_find 4 5 \<lparr>bst_root = BSTNode (5::int) (BSTNode 4 Null Null) (BSTNode 6 Null Null),
                     bst_size = 3\<rparr> = Some [4, 5]
   \<and> bst_inv (BSTNode (5::int) (BSTNode 4 Null Null) (BSTNode 6 Null Null))
   \<and> sorted [4, 5::int]
   \<and> range_find 7 9 \<lparr>bst_root = BSTNode (5::int) (BSTNode 4 Null Null) (BSTNode 6 Null Null),
                       bst_size = 3\<rparr> = None"
proof -
  let ?t = "\<lparr>bst_root = BSTNode (5::int) (BSTNode 4 Null Null) (BSTNode 6 Null Null), bst_size = 3\<rparr>"
  have r: "range_find 4 5 ?t = Some [4, 5]"
    by (simp add: range_find_def inorder_def)
  have b: "bst_inv (bst_root ?t)"
    by simp
  have n: "\<not> (\<exists>v \<in> set (inorder ?t). 7 \<le> v \<and> v \<le> 9)"
    by (simp add: inorder_def)
  from range_find_correct [of 4 5 ?t] r b have "sorted [4, 5::int]"
    by blast
  moreover from range_find_correct [of 7 9 ?t] n have "range_find 7 9 ?t = None"
    by blast
  ultimately show ?thesis
    using r b by simp
qed

subsection \<open>Rebalancing keeps the values and gives a low tree\<close>

lemma inorder_rb1: "inorder_list (rb1 elems) = elems"
proof (induction elems rule: rb1.induct)
  case (1 elems)
  show ?case
  proof (cases "length elems = 0")
    case True
    then show ?thesis by (simp add: rb1.simps)
  next
    case False
    then have mid: "length elems div 2 < length elems"
      by simp
    from False "1.IH" have
      "inorder_list (rb1 (take (length elems div 2) elems)) = take (length elems div 2) elems"
      "inorder_list (rb1 (drop (length elems div 2 + 1) elems)) = drop (length elems div 2 + 1) elems"
      by simp_all
    with False have "inorder_list (rb1 elems) =
        take (length elems div 2) elems @ elems ! (length elems div 2)
          # drop (Suc (length elems div 2)) elems"
      by (subst rb1.simps) simp
    with id_take_nth_drop [OF mid] show ?thesis
      by simp
  qed
qed

lemma rb1_Null_iff: "rb1 elems = Null \<longleftrightarrow> elems = []"
  by (subst rb1.simps) simp

lemma height1_rb1: "elems \<noteq> [] \<Longrightarrow> 2 ^ height1 (rb1 elems) \<le> length elems"
proof (induction elems rule: rb1.induct)
  case (1 elems)
  let ?m = "length elems div 2"
  let ?l = "take ?m elems"
  let ?r = "drop (?m + 1) elems"
  from "1.prems" have ne: "length elems \<noteq> 0"
    by simp
  have unfold: "rb1 elems = BSTNode (elems ! ?m) (rb1 ?l) (rb1 ?r)"
    using ne by (subst rb1.simps) simp
  show ?case
  proof (cases "?l = [] \<and> ?r = []")
    case True
    then have "height1 (rb1 elems) = 0"
      using unfold by (simp add: rb1_Null_iff)
    moreover from ne have "1 \<le> length elems"
      by (cases elems) simp_all
    ultimately show ?thesis
      by simp
  next
    case False
    have hl: "2 * 2 ^ height1 (rb1 ?l) \<le> length elems"
    proof (cases "?l = []")
      case True
      with False have "?r \<noteq> []" by simp
      then have "Suc ?m < length elems" by simp
      then have "2 \<le> length elems" by arith
      moreover from True have "height1 (rb1 ?l) = 0"
        using rb1_Null_iff [of ?l] by simp
      ultimately show ?thesis by simp
    next
      case nl: False
      from "1.IH"(1) [OF ne nl] have "2 ^ height1 (rb1 ?l) \<le> length ?l" .
      then show ?thesis by simp
    qed
    have hr: "2 * 2 ^ height1 (rb1 ?r) \<le> length elems"
    proof (cases "?r = []")
      case True
      with False have "?l \<noteq> []" by simp
      then have "0 < ?m" by simp
      then have "2 \<le> length elems" by arith
      moreover from True have "height1 (rb1 ?r) = 0"
        using rb1_Null_iff [of ?r] by simp
      ultimately show ?thesis by simp
    next
      case nr: False
      from "1.IH"(2) [OF ne nr] have "2 ^ height1 (rb1 ?r) \<le> length ?r" .
      then show ?thesis by simp
    qed
    from False have "height1 (rb1 elems) = 1 + max (height1 (rb1 ?l)) (height1 (rb1 ?r))"
      using unfold by (simp add: rb1_Null_iff)
    with hl hr show ?thesis
      by (cases "height1 (rb1 ?l) \<le> height1 (rb1 ?r)") (simp_all add: max_def)
  qed
qed

lemma height1_rb1_log: "int (height1 (rb1 elems)) \<le> \<lfloor>log 2 (real (length elems) + 1)\<rfloor>"
proof (cases "elems = []")
  case True
  then show ?thesis
    using rb1_Null_iff [of elems] by simp
next
  case False
  from height1_rb1 [OF this] have "2 ^ height1 (rb1 elems) \<le> length elems + 1"
    by simp
  from le_log2_of_power [OF this]
  have "real (height1 (rb1 elems)) \<le> log 2 (real (length elems) + 1)"
    by (simp add: add.commute)
  then show ?thesis
    by (simp add: le_floor_iff)
qed

text \<open>
  Claim C5. \<^verbatim>\<open>rebalance\<close> leaves the inorder sequence, and with it the multiset of stored
  values, as it was, does not touch the count, and the height afterwards is at most the floor
  of the base-2 logarithm of \<open>n + 1\<close>, where \<open>n\<close> is the number of stored values.
\<close>

theorem rebalance_correct:
  "inorder (rebalance self) = inorder self
   \<and> mset (inorder (rebalance self)) = mset (inorder self)
   \<and> bst_size (rebalance self) = bst_size self
   \<and> int (height (rebalance self)) \<le> \<lfloor>log 2 (real (length (inorder self)) + 1)\<rfloor>"
proof -
  have "inorder (rebalance self) = inorder self"
    by (simp add: rebalance_def inorder_eq inorder_rb1)
  moreover have "bst_size (rebalance self) = bst_size self"
    by (simp add: rebalance_def)
  moreover have "int (height (rebalance self)) \<le> \<lfloor>log 2 (real (length (inorder self)) + 1)\<rfloor>"
    using height1_rb1_log [of "inorder self"] by (simp add: rebalance_def height_def)
  ultimately show ?thesis
    by simp
qed

subsection \<open>The balance test\<close>

lemma fold_count: "fold (\<lambda>_ cnt. cnt + 1) xs (c::nat) = c + length xs"
  by (induction xs arbitrary: c) simp_all

lemma helper_eq: "helper self = num_nodes (bst_root self)"
  unfolding helper_def fold_count by (simp add: inorder_eq length_inorder_list)

lemma exp_seven_halves: "(16::real) \<le> exp (7 / 2)"
proof -
  have "(1::real) + 7 / 16 \<le> exp (7 / 16)"
    by (rule exp_ge_add_one_self)
  then have "(23 / 16 :: real) ^ 8 \<le> exp (7 / 16) ^ 8"
    by (intro power_mono) simp_all
  also have "exp (7 / 16 :: real) ^ 8 = exp (of_nat 8 * (7 / 16))"
    by (rule exp_of_nat_mult [symmetric])
  also have "\<dots> = exp (7 / 2)"
    by simp
  finally have "(23 / 16 :: real) ^ 8 \<le> exp (7 / 2)" .
  moreover have "(16::real) \<le> (23 / 16) ^ 8"
    by (simp add: power_divide)
  ultimately show ?thesis
    by simp
qed

lemma ln_16_le: "ln (16::real) \<le> 7 / 2"
proof -
  have "ln (16::real) \<le> ln (exp (7 / 2))"
    using exp_seven_halves by (subst ln_le_cancel_iff) simp_all
  then show ?thesis
    by simp
qed

lemma log2_16: "log 2 (16::real) = 4"
proof -
  have "log 2 ((2::real) ^ 4) = real 4"
    by (rule log_pow_cancel) simp_all
  then show ?thesis
    by simp
qed

lemma ln_2_gt_half: "1 / 2 < ln (2::real)"
proof -
  have "exp (1 / 2 :: real) < 2"
  proof (rule ccontr)
    assume "\<not> exp (1 / 2 :: real) < 2"
    then have "2 \<le> exp (1 / 2 :: real)"
      by simp
    then have "(2::real) ^ 2 \<le> exp (1 / 2) ^ 2"
      by (intro power_mono) simp_all
    also have "exp (1 / 2 :: real) ^ 2 = exp (2 * (1 / 2))"
      by (rule exp_double [symmetric])
    finally have "(4::real) \<le> exp 1"
      by simp
    with exp_le show False
      by simp
  qed
  then have "ln (exp (1 / 2 :: real)) < ln 2"
    by (subst ln_less_cancel_iff) simp_all
  then show ?thesis
    by simp
qed

lemma init_chain7: "init [1, 2, 3, 4, 5, 6, 7] = Inr chain7"
  by (simp add: init_def init_empty_def add_def isEmpty_def chain7_def)

text \<open>
  With the base-2 logarithm in the place of the natural one the test would accept the chain of
  seven nodes, of height 6, since \<open>2 log\<^sub>2 16 - 1 = 7\<close>; \<^verbatim>\<open>is_balanced\<close> rejects it, since
  \<open>2 ln 16 - 1 < 6\<close>.
\<close>

theorem is_balanced_log2_counterexample:
  "init [1, 2, 3, 4, 5, 6, 7] = Inr chain7
   \<and> \<not> (is_balanced chain7
          \<longleftrightarrow> real (height chain7) < 2 * log 2 (2 * (real (length (inorder chain7)) + 1)) - 1)"
proof -
  have h: "height chain7 = 6"
    by (simp add: height_def chain7_def)
  have n: "length (inorder chain7) = 7"
    by (simp add: inorder_eq chain7_def)
  have c: "helper chain7 = 7"
    by (simp add: helper_eq chain7_def)
  have "\<not> is_balanced chain7"
    using ln_16_le by (simp add: is_balanced_def h c)
  moreover have "real (height chain7) < 2 * log 2 (2 * (real (length (inorder chain7)) + 1)) - 1"
    by (simp add: h n log2_16)
  ultimately show ?thesis
    using init_chain7 by simp
qed

text \<open>
  Claim C1, amended. \<^verbatim>\<open>is_balanced\<close> counts the stored items \<open>n\<close> by a full inorder
  traversal and returns true if and only if the height is below \<open>2 ln (2 (n + 1)) - 1\<close>, where
  \<open>ln\<close> is the natural logarithm (read over the real numbers).
\<close>

theorem is_balanced_natural_log:
  "is_balanced self
     = (real (height1 (bst_root self)) < 2 * ln (2 * (real (num_nodes (bst_root self)) + 1)) - 1)
   \<and> helper self = length (inorder self)"
  by (simp add: is_balanced_def helper_eq height_def inorder_eq length_inorder_list)

text \<open>
  Claim C10. On the empty tree the count of stored items is zero, the height is zero, and
  \<^verbatim>\<open>is_balanced\<close> returns true, since \<open>0 < 2 ln 2 - 1\<close>.
\<close>

theorem is_balanced_empty:
  "is_balanced (init_empty :: 'a linkedbst)
   \<and> helper (init_empty :: 'a linkedbst) = 0 \<and> height (init_empty :: 'a linkedbst) = 0"
  using ln_2_gt_half
  by (simp add: is_balanced_def helper_def inorder_def height_def init_empty_def)

subsection \<open>Level order on a concrete tree\<close>

text \<open>
  Claim C2. \<^verbatim>\<open>levelorder\<close> should list every stored value, level by level down to
  the deepest one. On the tree built from 5, 4, 6 the height is 1, so the loop runs for the
  level of the root only: the result is the root value alone and the values 4 and 6 of the
  deepest level are missing. On a tree of one node the result is empty.
\<close>

theorem levelorder_misses_deepest_level:
  "init [5::int, 4, 6]
     = Inr \<lparr>bst_root = BSTNode 5 (BSTNode 4 Null Null) (BSTNode 6 Null Null), bst_size = 3\<rparr>
   \<and> height \<lparr>bst_root = BSTNode (5::int) (BSTNode 4 Null Null) (BSTNode 6 Null Null),
               bst_size = 3\<rparr> = 1
   \<and> levelorder \<lparr>bst_root = BSTNode (5::int) (BSTNode 4 Null Null) (BSTNode 6 Null Null),
                   bst_size = 3\<rparr> = [5]
   \<and> inorder \<lparr>bst_root = BSTNode (5::int) (BSTNode 4 Null Null) (BSTNode 6 Null Null),
                bst_size = 3\<rparr> = [4, 5, 6]
   \<and> levelorder \<lparr>bst_root = BSTNode (5::int) Null Null, bst_size = 1\<rparr> = []"
  by (simp add: init_def init_empty_def add_def isEmpty_def height_def levelorder_def inorder_def)

subsection \<open>Successor on a concrete tree\<close>

text \<open>
  Claim C3. \<^verbatim>\<open>successor\<close> should return the smallest stored value above the item and
  report absence only when there is none. On the tree that stores the single value
  \<open>10 ^ 32\<close> the successor of 0 is reported absent, although the stored value is greater
  than 0; the same happens for the stored value \<open>10 ^ 32 + 1\<close>, which the scan never
  accepts as a candidate.
\<close>

theorem successor_hides_large_value:
  "init [10 ^ 32 :: int] = Inr \<lparr>bst_root = BSTNode (10 ^ 32) Null Null, bst_size = 1\<rparr>
   \<and> (0::int) < 10 ^ 32
   \<and> successor 0 \<lparr>bst_root = BSTNode (10 ^ 32) Null Null, bst_size = 1\<rparr> = Inr None
   \<and> successor 0 \<lparr>bst_root = BSTNode (10 ^ 32 + 1) Null Null, bst_size = 1\<rparr> = Inr None"
  by (simp add: init_def init_empty_def add_def isEmpty_def successor_def push_child_def)

end
